theory Spec2Isabelle
  imports Main "HOL-Library.Word"
begin

unbundle bit_operations_syntax

section \<open>Byte buffers\<close>

text \<open>
  The classifier works on a \<^verbatim>\<open>Uint8Array\<close>.  A buffer is a list of bytes.  Reading
  \<^verbatim>\<open>data[i]\<close> beyond the end of a typed array does not raise in JavaScript: it gives
  \<^verbatim>\<open>undefined\<close>, which is \<open>None\<close> here.  \<^verbatim>\<open>undefined === 0x00\<close> is false, and the
  bitwise operators turn \<^verbatim>\<open>undefined\<close> into 0 (\<open>toInt32\<close>).
\<close>

type_synonym u8 = "8 word"

definition rd :: "u8 list \<Rightarrow> nat \<Rightarrow> u8 option" where
  "rd data i = (if i < length data then Some (data ! i) else None)"

fun toInt32 :: "u8 option \<Rightarrow> int" where
  "toInt32 None = 0"
| "toInt32 (Some b) = uint b"

section \<open>Bitstream classifier: \<^verbatim>\<open>detectCodec\<close>\<close>

datatype codecKind = H264 | H265 | Unknown

text \<open>
  The start-code test of all three scanning loops:
  \<^verbatim>\<open>data[i] === 0x00 && data[i + 1] === 0x00 &&
   ((data[i + 2] === 0x00 && data[i + 3] === 0x01) || data[i + 2] === 0x01)\<close>
\<close>

definition startCode :: "u8 list \<Rightarrow> nat \<Rightarrow> bool" where
  "startCode data i \<longleftrightarrow>
     rd data i = Some 0 \<and> rd data (i + 1) = Some 0 \<and>
     ((rd data (i + 2) = Some 0 \<and> rd data (i + 3) = Some 1) \<or> rd data (i + 2) = Some 1)"

text \<open>
  The indices that test evaluates, in evaluation order: \<^verbatim>\<open>&&\<close> and \<^verbatim>\<open>||\<close> stop at the
  first operand that decides them.
\<close>

definition startCodeReads :: "u8 list \<Rightarrow> nat \<Rightarrow> nat list" where
  "startCodeReads data i =
     (if rd data i \<noteq> Some 0 then [i]
      else if rd data (i + 1) \<noteq> Some 0 then [i, i + 1]
      else if rd data (i + 2) = Some 0 then
        (if rd data (i + 3) = Some 1 then [i, i + 1, i + 2, i + 3]
         else [i, i + 1, i + 2, i + 3, i + 2])
      else [i, i + 1, i + 2, i + 2])"

text \<open>\<^verbatim>\<open>const nalStart = data[i + 2] === 0x01 ? i + 3 : i + 4;\<close>\<close>

definition nalStart :: "u8 list \<Rightarrow> nat \<Rightarrow> nat" where
  "nalStart data i = (if rd data (i + 2) = Some 1 then i + 3 else i + 4)"

text \<open>
  \<^verbatim>\<open>data[nalStart] & 0x1f\<close> and \<^verbatim>\<open>(data[nalStart] >> 1) & 0x3f\<close>, on the header byte
  as a number.
\<close>

definition h264Type :: "u8 option \<Rightarrow> int" where
  "h264Type b = toInt32 b AND 0x1f"

definition h265Type :: "u8 option \<Rightarrow> int" where
  "h265Type b = drop_bit 1 (toInt32 b) AND 0x3f"

text \<open>
  The loop of \<^verbatim>\<open>detectCodec\<close>, from index \<open>i\<close>.  The result is the returned string
  together with the indices of \<open>data\<close> that were read, in order.  The loop condition
  \<^verbatim>\<open>i < data.length - 6\<close> is a comparison of numbers; \<^verbatim>\<open>data.length - 6\<close> is negative
  for a short buffer.
\<close>

function detectCodec_scan :: "u8 list \<Rightarrow> nat \<Rightarrow> codecKind \<times> nat list" where
  "detectCodec_scan data i =
     (if int i < int (length data) - 6 then
        (if startCode data i then
           (if h264Type (rd data (nalStart data i)) \<in> set [5, 7, 8] then
              (H264, startCodeReads data i @ [i + 2, nalStart data i, nalStart data i])
            else if h265Type (rd data (nalStart data i)) \<in> set [32, 33, 34, 19, 20] then
              (H265, startCodeReads data i @ [i + 2, nalStart data i, nalStart data i])
            else
              apsnd ((@) (startCodeReads data i @ [i + 2, nalStart data i, nalStart data i]))
                (detectCodec_scan data (i + 1)))
         else apsnd ((@) (startCodeReads data i)) (detectCodec_scan data (i + 1)))
      else (Unknown, []))"
  by pat_completeness auto
termination
  by (relation "measure (\<lambda>(data, i). length data - i)") auto

definition detectCodec :: "u8 list \<Rightarrow> codecKind" where
  "detectCodec data = fst (detectCodec_scan data 0)"

definition detectCodec_reads :: "u8 list \<Rightarrow> nat list" where
  "detectCodec_reads data = snd (detectCodec_scan data 0)"

section \<open>Bitstream classifier: \<^verbatim>\<open>isKeyFrame\<close>\<close>

text \<open>\<^verbatim>\<open>codec.startsWith(p)\<close>\<close>

definition startsWith :: "string \<Rightarrow> string \<Rightarrow> bool" where
  "startsWith s p \<longleftrightarrow> take (length p) s = p"

text \<open>
  The H.264 branch: the loop runs while \<^verbatim>\<open>i < data.length - 4\<close> and returns at the
  first start code, with \<^verbatim>\<open>nalUnitType === 5\<close> for
  \<^verbatim>\<open>data[i + 2] === 0x01 ? data[i + 3] & 0x1f : data[i + 4] & 0x1f\<close>.
\<close>

function isKeyFrame_h264 :: "u8 list \<Rightarrow> nat \<Rightarrow> bool \<times> nat list" where
  "isKeyFrame_h264 data i =
     (if int i < int (length data) - 4 then
        (if startCode data i then
           (if rd data (i + 2) = Some 1 then
              (h264Type (rd data (i + 3)) = 5, startCodeReads data i @ [i + 2, i + 3])
            else
              (h264Type (rd data (i + 4)) = 5, startCodeReads data i @ [i + 2, i + 4]))
         else apsnd ((@) (startCodeReads data i)) (isKeyFrame_h264 data (i + 1)))
      else (False, []))"
  by pat_completeness auto
termination
  by (relation "measure (\<lambda>(data, i). length data - i)") auto

text \<open>
  The H.265 branch: the loop runs while \<^verbatim>\<open>i < data.length - 6\<close> and goes on after a
  start code whose type is not one of 16 to 20.
\<close>

function isKeyFrame_h265 :: "u8 list \<Rightarrow> nat \<Rightarrow> bool \<times> nat list" where
  "isKeyFrame_h265 data i =
     (if int i < int (length data) - 6 then
        (if startCode data i then
           (if h265Type (rd data (nalStart data i)) \<in> set [16, 17, 18, 19, 20] then
              (True, startCodeReads data i @ [i + 2, nalStart data i])
            else
              apsnd ((@) (startCodeReads data i @ [i + 2, nalStart data i]))
                (isKeyFrame_h265 data (i + 1)))
         else apsnd ((@) (startCodeReads data i)) (isKeyFrame_h265 data (i + 1)))
      else (False, []))"
  by pat_completeness auto
termination
  by (relation "measure (\<lambda>(data, i). length data - i)") auto

definition isH264Family :: "string \<Rightarrow> bool" where
  "isH264Family codec \<longleftrightarrow> startsWith codec ''avc1'' \<or> startsWith codec ''h264''"

definition isH265Family :: "string \<Rightarrow> bool" where
  "isH265Family codec \<longleftrightarrow>
     startsWith codec ''hvc1'' \<or> startsWith codec ''hev1'' \<or> startsWith codec ''h265''"

text \<open>
  \<^verbatim>\<open>isKeyFrame(data, codec)\<close> with the indices it reads.  The two family tests are the
  conditions of the source's \<^verbatim>\<open>if\<close> and \<^verbatim>\<open>else if\<close>; the last line is its
  \<^verbatim>\<open>return true\<close> (``default to handle key frame'').
\<close>

definition isKeyFrame_run :: "u8 list \<Rightarrow> string \<Rightarrow> bool \<times> nat list" where
  "isKeyFrame_run data codec =
     (if isH264Family codec then isKeyFrame_h264 data 0
      else if isH265Family codec then isKeyFrame_h265 data 0
      else (True, []))"

definition isKeyFrame :: "u8 list \<Rightarrow> string \<Rightarrow> bool" where
  "isKeyFrame data codec = fst (isKeyFrame_run data codec)"

definition isKeyFrame_reads :: "u8 list \<Rightarrow> string \<Rightarrow> nat list" where
  "isKeyFrame_reads data codec = snd (isKeyFrame_run data codec)"

declare detectCodec_scan.simps [simp del]
declare isKeyFrame_h264.simps [simp del]
declare isKeyFrame_h265.simps [simp del]

section \<open>The player component\<close>

text \<open>
  An \<^verbatim>\<open>EncodedVideoChunk\<close> as the message handler builds it: its type and its data.
  The \<^verbatim>\<open>timestamp\<close> field is a reading of the clock (\<^verbatim>\<open>performance.now()\<close>); no
  branch of the component depends on it and it is left out.
\<close>

datatype chunkType = Key | Delta

record chunk =
  ctype :: chunkType
  cdata :: "u8 list"

text \<open>
  The \<^verbatim>\<open>VideoDecoder\<close> object held in \<^verbatim>\<open>decoderRef.current\<close>: the property
  \<^verbatim>\<open>_waitForKeyFrame\<close> that the handler stores on it (\<open>None\<close> is \<^verbatim>\<open>undefined\<close>), and the
  arguments of the calls of \<^verbatim>\<open>decode\<close> made so far, oldest first.
\<close>

record decoder =
  waitForKeyFrame :: "bool option"
  submitted :: "chunk list"

datatype websocket = WebSocket string

text \<open>Calls that leave the component, and one bookkeeping event for a call of \<^verbatim>\<open>detectCodec\<close>.\<close>

datatype effect =
    DetectCodec "u8 list"
  | OnPlay
  | WsClose "(nat \<times> string) option"
  | DecoderClose
  | Uncaught string

text \<open>
  The mutable state: the two refs, and the React state variables as their setters leave
  them (\<^verbatim>\<open>setAutoCodec\<close>, \<^verbatim>\<open>setError\<close>); \<open>None\<close> is \<^verbatim>\<open>null\<close>.
\<close>

record player =
  wsRef :: "websocket option"
  decoderRef :: "decoder option"
  autoCodecState :: "string option"
  errorState :: "string option"
  effects :: "effect list"

text \<open>
  What the handlers of one session close over.  They are created inside the effect
  \<^verbatim>\<open>useEffect(() => {...}, [codec, isSupported, cameraId, channel])\<close>, so \<^verbatim>\<open>codec\<close>,
  \<^verbatim>\<open>autoCodec\<close>, \<^verbatim>\<open>error\<close> and \<^verbatim>\<open>onPlay\<close> are the constants of the render that ran the
  effect.  \<^verbatim>\<open>autoCodec\<close> and \<^verbatim>\<open>error\<close> are not among the dependencies: a later
  \<^verbatim>\<open>setAutoCodec\<close> or \<^verbatim>\<open>setError\<close> renders the component again but installs no new
  handlers, and the handlers of the running session keep the values they closed over.
  \<open>onPlay\<close> tells whether the \<^verbatim>\<open>onPlay\<close> prop was given.  \<open>decodeThrows\<close> stands for the
  platform's decoder: whether \<^verbatim>\<open>decode\<close> throws, given the chunks submitted before and
  the chunk submitted now.
\<close>

record session =
  codec :: string
  autoCodec :: "string option"
  error :: "string option"
  onPlay :: bool
  decodeThrows :: "chunk list \<Rightarrow> chunk \<Rightarrow> bool"

text \<open>JavaScript truthiness of a string or \<^verbatim>\<open>null\<close>, and \<^verbatim>\<open>a || b\<close>.\<close>

definition truthy :: "string option \<Rightarrow> bool" where
  "truthy v \<longleftrightarrow> v \<noteq> None \<and> v \<noteq> Some []"

definition orElse :: "string option \<Rightarrow> string \<Rightarrow> string" where
  "orElse a b = (case a of None \<Rightarrow> b | Some s \<Rightarrow> if s = [] then b else s)"

datatype wsData = ArrayBuffer "u8 list" | OtherData

text \<open>
  \<^verbatim>\<open>if (!autoCodec) { const detected = detectCodec(uint8);
     if (detected !== 'unknown') { setAutoCodec(detected === 'h264' ? ... : ...); } }\<close>
\<close>

definition detectStep :: "session \<Rightarrow> u8 list \<Rightarrow> player \<Rightarrow> player" where
  "detectStep env uint8 st =
     (if \<not> truthy (autoCodec env) then
        (let st1 = st\<lparr>effects := effects st @ [DetectCodec uint8]\<rparr>
         in if detectCodec uint8 \<noteq> Unknown then
              st1\<lparr>autoCodecState :=
                    Some (if detectCodec uint8 = H264 then ''avc1.42E01E''
                          else ''hvc1.1.6.L93.B0'')\<rparr>
            else st1)
      else st)"

text \<open>\<^verbatim>\<open>const useCodec = autoCodec || codec;\<close>\<close>

definition useCodec :: "session \<Rightarrow> string" where
  "useCodec env = orElse (autoCodec env) (codec env)"

text \<open>
  \<^verbatim>\<open>new EncodedVideoChunk({ type: isKey ? 'key' : 'delta', ..., data: uint8 })\<close> with
  \<^verbatim>\<open>isKey = isKeyFrame(uint8, useCodec)\<close>.
\<close>

definition videoChunk :: "session \<Rightarrow> u8 list \<Rightarrow> chunk" where
  "videoChunk env uint8 =
     \<lparr>ctype = (if isKeyFrame uint8 (useCodec env) then Key else Delta), cdata = uint8\<rparr>"

text \<open>
  \<^verbatim>\<open>wsRef.current.onmessage\<close>.  Reading \<^verbatim>\<open>decoderRef.current._waitForKeyFrame\<close> when the
  ref is \<^verbatim>\<open>null\<close> throws a TypeError that nothing catches.  An exception of
  \<^verbatim>\<open>decode\<close> is caught, and the handler calls \<^verbatim>\<open>setError\<close>.
\<close>

definition onmessage :: "session \<Rightarrow> wsData \<Rightarrow> player \<Rightarrow> player" where
  "onmessage env e st =
     (case e of
        OtherData \<Rightarrow> st
      | ArrayBuffer uint8 \<Rightarrow>
          (let st1 = detectStep env uint8 st
           in case decoderRef st1 of
                None \<Rightarrow> st1\<lparr>effects := effects st1 @ [Uncaught ''TypeError'']\<rparr>
              | Some d \<Rightarrow>
                  (let d1 = (if waitForKeyFrame d = None
                             then d\<lparr>waitForKeyFrame := Some True\<rparr> else d);
                       isKey = isKeyFrame uint8 (useCodec env)
                   in if waitForKeyFrame d1 = Some True \<and> \<not> isKey then
                        st1\<lparr>decoderRef := Some d1\<rparr>
                      else
                        (let d2 = (if waitForKeyFrame d1 = Some True
                                   then d1\<lparr>waitForKeyFrame := Some False\<rparr> else d1);
                             st2 = st1\<lparr>decoderRef :=
                                         Some (d2\<lparr>submitted :=
                                                     submitted d2 @ [videoChunk env uint8]\<rparr>)\<rparr>
                         in if decodeThrows env (submitted d2) (videoChunk env uint8) then
                              st2\<lparr>errorState :=
                                    Some ''instant.deviceList.deviceDecodeFailed''\<rparr>
                            else st2))))"

text \<open>The messages of a session are handled one after the other, in arrival order.\<close>

fun run :: "session \<Rightarrow> wsData list \<Rightarrow> player \<Rightarrow> player" where
  "run env [] st = st"
| "run env (e # es) st = run env es (onmessage env e st)"

text \<open>
  \<^verbatim>\<open>wsRef.current.onclose\<close>: \<^verbatim>\<open>const { reason = '' } = event\<close> takes the default when
  the event has no reason.
\<close>

record closeEvent =
  reason :: "string option"

definition onclose :: "session \<Rightarrow> closeEvent \<Rightarrow> player \<Rightarrow> player" where
  "onclose env event st =
     (let st1 = (if \<not> truthy (error env)
                 then st\<lparr>errorState := Some ''instant.deviceList.deviceConnectClosed''\<rparr>
                 else st);
          r = (case reason event of None \<Rightarrow> [] | Some s \<Rightarrow> s)
      in if r \<noteq> ''close_by_user'' then
           (if onPlay env then st1\<lparr>effects := effects st1 @ [OnPlay]\<rparr> else st1)
         else st1)"

text \<open>
  The cleanup function the effect returns.  It runs when the component is unmounted or
  one of the effect's dependencies changes.
\<close>

definition cleanup :: "player \<Rightarrow> player" where
  "cleanup st =
     (let st1 = (case wsRef st of
                   None \<Rightarrow> st
                 | Some ws \<Rightarrow>
                     st\<lparr>effects := effects st @ [WsClose (Some (1000, ''close_by_user''))],
                        wsRef := None\<rparr>)
      in case decoderRef st1 of
           None \<Rightarrow> st1
         | Some d \<Rightarrow> st1\<lparr>effects := effects st1 @ [DecoderClose], decoderRef := None\<rparr>)"

section \<open>The page: \<^verbatim>\<open>playStream\<close>\<close>

record item =
  did :: string

text \<open>
  \<^verbatim>\<open>setCurrentPlayingId(v)\<close> called with a value: the pending state becomes \<open>v\<close>,
  whatever was pending.  \<^verbatim>\<open>currentPlayingId\<close> itself is the constant of the current
  render and does not change while the handler runs.
\<close>

definition setCurrentPlayingId :: "string list \<Rightarrow> string list \<Rightarrow> string list" where
  "setCurrentPlayingId v pending = v"

text \<open>
  \<^verbatim>\<open>playStream(item)\<close>, from the list of the current render to the list of the next.
\<close>

definition playStream :: "item option \<Rightarrow> string list \<Rightarrow> string list" where
  "playStream it currentPlayingId =
     (case it of
        None \<Rightarrow> currentPlayingId
      | Some x \<Rightarrow>
          if did x \<in> set currentPlayingId then
            setCurrentPlayingId (filter (\<lambda>id. id \<noteq> did x) currentPlayingId) currentPlayingId
          else
            (let pending = (if length currentPlayingId \<ge> 4
                            then setCurrentPlayingId (drop 1 currentPlayingId) currentPlayingId
                            else currentPlayingId)
             in setCurrentPlayingId (currentPlayingId @ [did x]) pending))"

section \<open>Sessions used as examples\<close>

text \<open>
  A player mounted without a \<^verbatim>\<open>codec\<close> prop.  \<^verbatim>\<open>useState(null)\<close> makes
  \<^verbatim>\<open>autoCodec\<close> and \<^verbatim>\<open>error\<close> \<^verbatim>\<open>null\<close> in the render that runs the effect for the first
  time; these are the values the handlers of the first session close over.
\<close>

definition defaultSession :: session where
  "defaultSession =
     \<lparr>codec = ''avc1.42E01E'', autoCodec = None, error = None, onPlay = True,
      decodeThrows = (\<lambda>_ _. False)\<rparr>"

text \<open>
  The refs after \<^verbatim>\<open>init\<close>: a socket, and a decoder on which \<^verbatim>\<open>_waitForKeyFrame\<close> has
  not been set yet.
\<close>

definition freshPlayer :: player where
  "freshPlayer =
     \<lparr>wsRef = Some (WebSocket ''/api/miot/ws/video_stream?camera_id=1&channel=0''),
      decoderRef = Some \<lparr>waitForKeyFrame = None, submitted = []\<rparr>,
      autoCodecState = None, errorState = None, effects = []\<rparr>"

text \<open>A decoder that rejects the first chunk it is given and accepts the others.\<close>

definition rejectingSession :: session where
  "rejectingSession = defaultSession\<lparr>decodeThrows := (\<lambda>before c. before = [])\<rparr>"


section \<open>Vocabulary of the properties\<close>

text \<open>
  A buffer contains a start code when the bytes 00 00 01 or 00 00 00 01 occur in it at
  some position.
\<close>

definition containsStartCode :: "u8 list \<Rightarrow> bool" where
  "containsStartCode data \<longleftrightarrow>
     (\<exists>i\<in>set [0..<length data].
        take 3 (drop i data) = [0, 0, 1] \<or> take 4 (drop i data) = [0, 0, 0, 1])"

text \<open>The bytes of a buffer that follow a start code 00 00 01 or 00 00 00 01.\<close>

definition nalHeaders :: "u8 list \<Rightarrow> u8 list" where
  "nalHeaders data =
     [data ! (i + 3). i \<leftarrow> [0..<length data],
        take 3 (drop i data) = [0, 0, 1] \<and> i + 3 < length data] @
     [data ! (i + 4). i \<leftarrow> [0..<length data],
        take 4 (drop i data) = [0, 0, 0, 1] \<and> i + 4 < length data]"

text \<open>
  The buffer contains a NAL unit whose H.265 type field (bits 1 to 6 of the byte after
  the start code) is one of \<open>types\<close>.
\<close>

definition hasH265Nal :: "u8 list \<Rightarrow> int list \<Rightarrow> bool" where
  "hasH265Nal data types \<longleftrightarrow> (\<exists>b\<in>set (nalHeaders data). h265Type (Some b) \<in> set types)"

section \<open>Properties of the scanning loops\<close>

subsection \<open>detectCodec\<close>

lemma startCodeReads_le: "k \<in> set (startCodeReads data i) \<Longrightarrow> k \<le> i + 3"
  by (auto simp: startCodeReads_def split: if_splits)

lemma startCodeReads_le_nalStart:
  "startCode data i \<Longrightarrow> k \<in> set (startCodeReads data i) \<Longrightarrow> k < nalStart data i"
  by (auto simp: startCodeReads_def startCode_def nalStart_def split: if_splits)

lemma nalStart_le: "nalStart data i \<le> i + 4"
  by (simp add: nalStart_def)

lemma nalStart_ge: "i + 3 \<le> nalStart data i"
  by (simp add: nalStart_def)

lemma detectCodec_scan_reads_bounded:
  "k \<in> set (snd (detectCodec_scan data i)) \<Longrightarrow> k < length data"
proof (induction data i rule: detectCodec_scan.induct)
  case (1 data i)
  show ?case
  proof (cases "int i < int (length data) - 6")
    case False
    with "1.prems" show ?thesis
      by (simp add: detectCodec_scan.simps [of data i])
  next
    case True
    then have w: "i + 6 < length data" by simp
    have a: "k < length data" if "k \<in> set (startCodeReads data i)" for k
      using startCodeReads_le [OF that] w by simp
    have b: "nalStart data i < length data"
      using nalStart_le [of data i] w by simp
    from "1.prems" True "1.IH" a b w show ?thesis
      by (auto simp: detectCodec_scan.simps [of data i] split: if_splits)
  qed
qed

lemma detectCodec_scan_step:
  "\<not> (startCode data n \<and>
     (h264Type (rd data (nalStart data n)) \<in> set [5, 7, 8] \<or>
      h265Type (rd data (nalStart data n)) \<in> set [32, 33, 34, 19, 20])) \<Longrightarrow>
   fst (detectCodec_scan data n) = fst (detectCodec_scan data (Suc n))"
  by (simp add: detectCodec_scan.simps [of data n] detectCodec_scan.simps [of data "Suc n"])

lemma detectCodec_scan_skip:
  assumes "i \<le> p"
    and "\<And>j. i \<le> j \<Longrightarrow> j < p \<Longrightarrow> \<not> (startCode data j \<and>
     (h264Type (rd data (nalStart data j)) \<in> set [5, 7, 8] \<or>
      h265Type (rd data (nalStart data j)) \<in> set [32, 33, 34, 19, 20]))"
  shows "fst (detectCodec_scan data i) = fst (detectCodec_scan data p)"
  using assms
proof (induction rule: inc_induct)
  case base
  show ?case by simp
next
  case (step n)
  have "fst (detectCodec_scan data n) = fst (detectCodec_scan data (Suc n))"
    by (rule detectCodec_scan_step) (use step in auto)
  also have "\<dots> = fst (detectCodec_scan data p)"
    by (rule step.IH) (use step in auto)
  finally show ?case .
qed

lemma detectCodec_scan_unknown:
  assumes "\<And>j. i \<le> j \<Longrightarrow> int j < int (length data) - 6 \<Longrightarrow> \<not> startCode data j"
  shows "fst (detectCodec_scan data i) = Unknown"
  using assms
proof (induction data i rule: detectCodec_scan.induct)
  case (1 data i)
  show ?case
  proof (cases "int i < int (length data) - 6")
    case False
    then show ?thesis by (simp add: detectCodec_scan.simps [of data i])
  next
    case True
    have nh: "\<not> startCode data i"
      using "1.prems" [of i] True by simp
    have "fst (detectCodec_scan data i) = fst (detectCodec_scan data (Suc i))"
      by (rule detectCodec_scan_step) (use nh in simp)
    also have "\<dots> = Unknown"
      using "1.IH" "1.prems" True nh by auto
    finally show ?thesis .
  qed
qed

lemma detectCodec_scan_h264:
  "int p < int (length data) - 6 \<Longrightarrow> startCode data p \<Longrightarrow>
   h264Type (rd data (nalStart data p)) \<in> set [5, 7, 8] \<Longrightarrow>
   fst (detectCodec_scan data p) = H264"
  by (simp add: detectCodec_scan.simps [of data p])

lemma detectCodec_scan_h265:
  "int p < int (length data) - 6 \<Longrightarrow> startCode data p \<Longrightarrow>
   h264Type (rd data (nalStart data p)) \<notin> set [5, 7, 8] \<Longrightarrow>
   h265Type (rd data (nalStart data p)) \<in> set [32, 33, 34, 19, 20] \<Longrightarrow>
   fst (detectCodec_scan data p) = H265"
  by (simp add: detectCodec_scan.simps [of data p])

subsection \<open>isKeyFrame, H.264\<close>

lemma isKeyFrame_h264_step:
  "\<not> startCode data n \<Longrightarrow> fst (isKeyFrame_h264 data n) = fst (isKeyFrame_h264 data (Suc n))"
  by (simp add: isKeyFrame_h264.simps [of data n] isKeyFrame_h264.simps [of data "Suc n"])

lemma isKeyFrame_h264_skip:
  assumes "i \<le> p" and "\<And>j. i \<le> j \<Longrightarrow> j < p \<Longrightarrow> \<not> startCode data j"
  shows "fst (isKeyFrame_h264 data i) = fst (isKeyFrame_h264 data p)"
  using assms
proof (induction rule: inc_induct)
  case base
  show ?case by simp
next
  case (step n)
  have "fst (isKeyFrame_h264 data n) = fst (isKeyFrame_h264 data (Suc n))"
    by (rule isKeyFrame_h264_step) (use step in auto)
  also have "\<dots> = fst (isKeyFrame_h264 data p)"
    by (rule step.IH) (use step in auto)
  finally show ?case .
qed

lemma isKeyFrame_h264_at:
  "startCode data p \<Longrightarrow>
   fst (isKeyFrame_h264 data p) \<longleftrightarrow>
     int p < int (length data) - 4 \<and> h264Type (rd data (nalStart data p)) = 5"
  by (simp add: isKeyFrame_h264.simps [of data p] nalStart_def)

lemma isKeyFrame_h264_reads_skip:
  assumes "i \<le> p" and "\<And>j. i \<le> j \<Longrightarrow> j < p \<Longrightarrow> \<not> startCode data j"
    and "k \<in> set (snd (isKeyFrame_h264 data i))"
  shows "k < p + 3 \<or> k \<in> set (snd (isKeyFrame_h264 data p))"
  using assms
proof (induction rule: inc_induct)
  case base
  then show ?case by simp
next
  case (step n)
  have ns: "\<not> startCode data n" using step by auto
  from step.prems(2) ns
  have "k \<in> set (startCodeReads data n) \<or> k \<in> set (snd (isKeyFrame_h264 data (Suc n)))"
    by (auto simp: isKeyFrame_h264.simps [of data n] split: if_splits)
  then show ?case
  proof
    assume "k \<in> set (startCodeReads data n)"
    from startCodeReads_le [OF this] step.hyps show ?thesis by simp
  next
    assume "k \<in> set (snd (isKeyFrame_h264 data (Suc n)))"
    then show ?thesis using step.IH step.prems(1) by auto
  qed
qed

lemma isKeyFrame_h264_reads_at:
  "startCode data p \<Longrightarrow> k \<in> set (snd (isKeyFrame_h264 data p)) \<Longrightarrow> k \<le> nalStart data p"
  using startCodeReads_le_nalStart [of data p k]
  by (auto simp: isKeyFrame_h264.simps [of data p] nalStart_def split: if_splits)

subsection \<open>isKeyFrame, H.265\<close>

lemma isKeyFrame_h265_iff:
  "fst (isKeyFrame_h265 data i) \<longleftrightarrow>
     (\<exists>p\<ge>i. int p < int (length data) - 6 \<and> startCode data p \<and>
        h265Type (rd data (nalStart data p)) \<in> set [16, 17, 18, 19, 20])"
proof (induction data i rule: isKeyFrame_h265.induct)
  case (1 data i)
  let ?hit = "\<lambda>p. int p < int (length data) - 6 \<and> startCode data p \<and>
        h265Type (rd data (nalStart data p)) \<in> set [16, 17, 18, 19, 20]"
  show ?case
  proof (cases "int i < int (length data) - 6")
    case False
    then have "\<not> (\<exists>p\<ge>i. ?hit p)" by auto
    with False show ?thesis by (simp add: isKeyFrame_h265.simps [of data i])
  next
    case True
    show ?thesis
    proof (cases "?hit i")
      case True
      then have "fst (isKeyFrame_h265 data i)"
        by (simp add: isKeyFrame_h265.simps [of data i])
      with True show ?thesis by blast
    next
      case False
      with True have eq: "fst (isKeyFrame_h265 data i) = fst (isKeyFrame_h265 data (i + 1))"
        by (auto simp: isKeyFrame_h265.simps [of data i])
      have ih: "fst (isKeyFrame_h265 data (i + 1)) \<longleftrightarrow> (\<exists>p\<ge>i + 1. ?hit p)"
        using "1.IH" True False by blast
      have "(\<exists>p\<ge>i + 1. ?hit p) \<longleftrightarrow> (\<exists>p\<ge>i. ?hit p)"
      proof
        assume "\<exists>p\<ge>i + 1. ?hit p"
        then obtain p where "p \<ge> i + 1" "?hit p" by blast
        then have "p \<ge> i" by simp
        with \<open>?hit p\<close> show "\<exists>p\<ge>i. ?hit p" by blast
      next
        assume "\<exists>p\<ge>i. ?hit p"
        then obtain p where p: "p \<ge> i" "?hit p" by blast
        with False have "p \<noteq> i" by blast
        with p have "p \<ge> i + 1" by simp
        with p show "\<exists>p\<ge>i + 1. ?hit p" by blast
      qed
      with eq ih show ?thesis by simp
    qed
  qed
qed

lemma h265_not_h264: "isH265Family c \<Longrightarrow> \<not> isH264Family c"
  by (auto simp: isH265Family_def isH264Family_def startsWith_def)

lemma startCode_containsStartCode:
  assumes "startCode data i"
  shows "containsStartCode data"
proof -
  from assms have i0: "i < length data" "data ! i = 0"
    and i1: "Suc i < length data" "data ! Suc i = 0"
    by (auto simp: startCode_def rd_def split: if_splits)
  from assms have
    "(Suc (Suc i) < length data \<and> data ! Suc (Suc i) = 1) \<or>
     (Suc (Suc i) < length data \<and> data ! Suc (Suc i) = 0 \<and>
      Suc (Suc (Suc i)) < length data \<and> data ! Suc (Suc (Suc i)) = 1)"
    by (auto simp: startCode_def rd_def numeral_3_eq_3 numeral_2_eq_2 split: if_splits)
  then have "take 3 (drop i data) = [0, 0, 1] \<or> take 4 (drop i data) = [0, 0, 0, 1]"
  proof
    assume a: "Suc (Suc i) < length data \<and> data ! Suc (Suc i) = 1"
    have "drop i data = 0 # 0 # 1 # drop (Suc (Suc (Suc i))) data"
      using i0 i1 a by (simp add: Cons_nth_drop_Suc [symmetric])
    then show ?thesis by simp
  next
    assume a: "Suc (Suc i) < length data \<and> data ! Suc (Suc i) = 0 \<and>
      Suc (Suc (Suc i)) < length data \<and> data ! Suc (Suc (Suc i)) = 1"
    have "drop i data = 0 # 0 # 0 # 1 # drop (Suc (Suc (Suc (Suc i)))) data"
      using i0 i1 a by (simp add: Cons_nth_drop_Suc [symmetric])
    then show ?thesis by simp
  qed
  with i0 show ?thesis unfolding containsStartCode_def by auto
qed

section \<open>The claims about the classifier\<close>

text \<open>
  Claim C6.  For every buffer shorter than 6 bytes, and for every buffer of any length
  that contains no start code 00 00 01 or 00 00 00 01, \<^verbatim>\<open>detectCodec\<close> returns
  \<^verbatim>\<open>'unknown'\<close>, and every index it reads lies within the buffer.  The function has no
  raising branch: it is total and its only results are the three strings.
\<close>

theorem detectCodec_tolerates_short_and_codeless:
  assumes "length data < 6 \<or> \<not> containsStartCode data"
  shows "detectCodec data = Unknown \<and> (\<forall>k\<in>set (detectCodec_reads data). k < length data)"
proof -
  have "\<not> startCode data j" if "int j < int (length data) - 6" for j
    using assms that startCode_containsStartCode [of data j] by auto
  then have "fst (detectCodec_scan data 0) = Unknown"
    by (intro detectCodec_scan_unknown) simp
  moreover have "\<forall>k\<in>set (snd (detectCodec_scan data 0)). k < length data"
    using detectCodec_scan_reads_bounded by blast
  ultimately show ?thesis by (simp add: detectCodec_def detectCodec_reads_def)
qed

theorem detectCodec_tolerates_short_and_codeless_witness:
  "length [0, 0, 1, 0x65, 0x88 :: u8] < 6 \<and>
   detectCodec [0, 0, 1, 0x65, 0x88] = Unknown \<and>
   list_all (\<lambda>k. k < 5) (detectCodec_reads [0, 0, 1, 0x65, 0x88]) \<and>
   \<not> containsStartCode [0, 0, 2, 0x65, 0x88, 0, 1, 0, 0] \<and>
   detectCodec [0, 0, 2, 0x65, 0x88, 0, 1, 0, 0] = Unknown \<and>
   list_all (\<lambda>k. k < 9) (detectCodec_reads [0, 0, 2, 0x65, 0x88, 0, 1, 0, 0])"
proof -
  have a: "length [0, 0, 1, 0x65, 0x88 :: u8] < 6 \<or> \<not> containsStartCode [0, 0, 1, 0x65, 0x88]"
    by simp
  have n: "\<not> containsStartCode [0, 0, 2, 0x65, 0x88, 0, 1, 0, 0]"
    by code_simp
  then have b: "length [0, 0, 2, 0x65, 0x88, 0, 1, 0, 0 :: u8] < 6 \<or>
      \<not> containsStartCode [0, 0, 2, 0x65, 0x88, 0, 1, 0, 0]"
    by simp
  from detectCodec_tolerates_short_and_codeless [OF a]
    detectCodec_tolerates_short_and_codeless [OF b] n
  show ?thesis by (simp add: list_all_iff eval_nat_numeral)
qed

text \<open>
  Claim C4, as stated: every buffer that contains a NAL unit whose H.265 type is 32, 33,
  34, 19 or 20 is classified \<^verbatim>\<open>'h265'\<close>.  It fails in two ways.  The header byte 0x28
  of an H.265 IDR-N-LP unit (type 20) has 8 in its low five bits, and the H.264 test
  comes first: the result is \<^verbatim>\<open>'h264'\<close>.  A start code in the last six bytes of the
  buffer is not reached by the loop: the result is \<^verbatim>\<open>'unknown'\<close>.
\<close>

theorem detectCodec_h265_nal_counterexample:
  "hasH265Nal [0, 0, 0, 1, 0x28, 0x01, 0xaf, 0x78] [32, 33, 34, 19, 20] \<and>
   detectCodec [0, 0, 0, 1, 0x28, 0x01, 0xaf, 0x78] = H264 \<and>
   hasH265Nal [0, 0, 1, 0x40, 0x01, 0x0c] [32, 33, 34, 19, 20] \<and>
   detectCodec [0, 0, 1, 0x40, 0x01, 0x0c] = Unknown"
  by code_simp

text \<open>
  Claim C4, amended.  If a start code at an index \<open>p\<close> below \<^verbatim>\<open>data.length - 6\<close> has a
  header byte whose H.265 type is 32, 33, 34, 19 or 20, and no start code at or before
  \<open>p\<close> has a header byte whose low five bits are 5, 7 or 8, then \<^verbatim>\<open>detectCodec\<close>
  returns \<^verbatim>\<open>'h265'\<close>.
\<close>

theorem detectCodec_h265_first_hit:
  assumes "int p < int (length data) - 6" and "startCode data p"
    and "h265Type (rd data (nalStart data p)) \<in> set [32, 33, 34, 19, 20]"
    and "\<forall>j\<le>p. startCode data j \<longrightarrow> h264Type (rd data (nalStart data j)) \<notin> set [5, 7, 8]"
  shows "detectCodec data = H265"
proof -
  let ?hit = "\<lambda>j. startCode data j \<and>
     (h264Type (rd data (nalStart data j)) \<in> set [5, 7, 8] \<or>
      h265Type (rd data (nalStart data j)) \<in> set [32, 33, 34, 19, 20])"
  from assms have "?hit p" by blast
  then have "\<exists>q. ?hit q \<and> (\<forall>j<q. \<not> ?hit j)"
    using exists_least_iff [of ?hit] by blast
  then obtain q where q: "?hit q" and least: "\<forall>j<q. \<not> ?hit j" by blast
  have "q \<le> p"
  proof (rule ccontr)
    assume "\<not> q \<le> p"
    then have "p < q" by simp
    with least \<open>?hit p\<close> show False by blast
  qed
  with assms(1) have w: "int q < int (length data) - 6" by simp
  from \<open>q \<le> p\<close> assms(4) q
  have n264: "h264Type (rd data (nalStart data q)) \<notin> set [5, 7, 8]" by blast
  with q have h265: "h265Type (rd data (nalStart data q)) \<in> set [32, 33, 34, 19, 20]"
    by blast
  have "fst (detectCodec_scan data 0) = fst (detectCodec_scan data q)"
    by (rule detectCodec_scan_skip) (use least in auto)
  also have "\<dots> = H265"
    using w q n264 h265 by (intro detectCodec_scan_h265) auto
  finally show ?thesis by (simp add: detectCodec_def)
qed

theorem detectCodec_h265_first_hit_witness:
  "int 0 < int (length [0, 0, 0, 1, 0x40, 0x01, 0x0c, 0x01 :: u8]) - 6 \<and>
   startCode [0, 0, 0, 1, 0x40, 0x01, 0x0c, 0x01] 0 \<and>
   h265Type (rd [0, 0, 0, 1, 0x40, 0x01, 0x0c, 0x01]
     (nalStart [0, 0, 0, 1, 0x40, 0x01, 0x0c, 0x01] 0)) = 32 \<and>
   h264Type (rd [0, 0, 0, 1, 0x40, 0x01, 0x0c, 0x01]
     (nalStart [0, 0, 0, 1, 0x40, 0x01, 0x0c, 0x01] 0)) = 0 \<and>
   detectCodec [0, 0, 0, 1, 0x40, 0x01, 0x0c, 0x01] = H265"
proof -
  let ?d = "[0, 0, 0, 1, 0x40, 0x01, 0x0c, 0x01 :: u8]"
  have a: "int 0 < int (length ?d) - 6" by simp
  have b: "startCode ?d 0" by (simp add: startCode_def rd_def)
  have t5: "h265Type (rd ?d (nalStart ?d 0)) = 32"
    by (simp add: h265Type_def rd_def nalStart_def)
  have t4: "h264Type (rd ?d (nalStart ?d 0)) = 0"
    by (simp add: h264Type_def rd_def nalStart_def)
  have c: "h265Type (rd ?d (nalStart ?d 0)) \<in> set [32, 33, 34, 19, 20]"
    using t5 by simp
  have d: "\<forall>j\<le>0. startCode ?d j \<longrightarrow> h264Type (rd ?d (nalStart ?d j)) \<notin> set [5, 7, 8]"
    using t4 by simp
  from detectCodec_h265_first_hit [OF a b c d] a b t5 t4 show ?thesis by simp
qed

text \<open>
  Claim C5, as stated: whenever the byte after the first start code of the buffer has
  H.264 type 5, \<^verbatim>\<open>detectCodec\<close> returns \<^verbatim>\<open>'h264'\<close> and \<^verbatim>\<open>isKeyFrame\<close> with a codec of
  the H.264 family returns true.  The loops stop before the end of the buffer.  In
  00 00 01 65 88 84 the start code at index 0 is beyond the range of \<^verbatim>\<open>detectCodec\<close>
  (\<^verbatim>\<open>0 < data.length - 6\<close> is false) and the result is \<^verbatim>\<open>'unknown'\<close>; in 00 00 01 65 it
  is beyond the range of \<^verbatim>\<open>isKeyFrame\<close> (\<^verbatim>\<open>0 < data.length - 4\<close> is false) and the result
  is false.
\<close>

theorem h264_idr_tail_counterexample:
  "startCode [0, 0, 1, 0x65, 0x88, 0x84] 0 \<and>
   h264Type (rd [0, 0, 1, 0x65, 0x88, 0x84] (nalStart [0, 0, 1, 0x65, 0x88, 0x84] 0)) = 5 \<and>
   detectCodec [0, 0, 1, 0x65, 0x88, 0x84] = Unknown \<and>
   isH264Family ''avc1.42E01E'' \<and>
   startCode [0, 0, 1, 0x65] 0 \<and>
   h264Type (rd [0, 0, 1, 0x65] (nalStart [0, 0, 1, 0x65] 0)) = 5 \<and>
   \<not> isKeyFrame [0, 0, 1, 0x65] ''avc1.42E01E''"
  by code_simp

text \<open>
  Claim C5, amended.  Let the first start code of the buffer be at index \<open>p\<close>.  If the
  header byte after it has H.264 type 5 and \<open>p\<close> is below \<^verbatim>\<open>data.length - 6\<close>, then
  \<^verbatim>\<open>detectCodec\<close> returns \<^verbatim>\<open>'h264'\<close> and \<^verbatim>\<open>isKeyFrame\<close> with a codec of the H.264
  family returns true.  With a codec of the H.264 family \<^verbatim>\<open>isKeyFrame\<close> returns true
  exactly when that header byte has type 5 and \<open>p\<close> is below \<^verbatim>\<open>data.length - 4\<close>; so
  whenever the type of the first header byte is not 5, it returns false.
\<close>

theorem h264_idr_first_nal:
  assumes "startCode data p" and "\<forall>j<p. \<not> startCode data j"
  shows "(h264Type (rd data (nalStart data p)) = 5 \<and> int p < int (length data) - 6 \<longrightarrow>
            detectCodec data = H264 \<and> (isH264Family c \<longrightarrow> isKeyFrame data c)) \<and>
         (isH264Family c \<longrightarrow>
            (isKeyFrame data c \<longleftrightarrow>
               h264Type (rd data (nalStart data p)) = 5 \<and> int p < int (length data) - 4)) \<and>
         (isH264Family c \<and> h264Type (rd data (nalStart data p)) \<noteq> 5 \<longrightarrow>
            \<not> isKeyFrame data c)"
proof -
  have d: "detectCodec data = H264"
    if "h264Type (rd data (nalStart data p)) = 5" "int p < int (length data) - 6"
  proof -
    have "fst (detectCodec_scan data 0) = fst (detectCodec_scan data p)"
      by (rule detectCodec_scan_skip) (use assms in auto)
    also have "\<dots> = H264"
      using that assms(1) by (intro detectCodec_scan_h264) auto
    finally show ?thesis by (simp add: detectCodec_def)
  qed
  have k: "isKeyFrame data c \<longleftrightarrow>
      int p < int (length data) - 4 \<and> h264Type (rd data (nalStart data p)) = 5"
    if "isH264Family c"
  proof -
    have "fst (isKeyFrame_h264 data 0) = fst (isKeyFrame_h264 data p)"
      by (rule isKeyFrame_h264_skip) (use assms in auto)
    with that isKeyFrame_h264_at [OF assms(1)] show ?thesis
      by (simp add: isKeyFrame_def isKeyFrame_run_def)
  qed
  from d k show ?thesis by auto
qed

theorem h264_idr_first_nal_witness:
  "startCode [9, 0, 0, 0, 1, 0x65, 0x88, 0x84, 0x00, 0x33] 1 \<and>
   \<not> startCode [9, 0, 0, 0, 1, 0x65, 0x88, 0x84, 0x00, 0x33] 0 \<and>
   isH264Family ''avc1.42E01E'' \<and>
   h264Type (rd [9, 0, 0, 0, 1, 0x65, 0x88, 0x84, 0x00, 0x33]
     (nalStart [9, 0, 0, 0, 1, 0x65, 0x88, 0x84, 0x00, 0x33] 1)) = 5 \<and>
   detectCodec [9, 0, 0, 0, 1, 0x65, 0x88, 0x84, 0x00, 0x33] = H264 \<and>
   isKeyFrame [9, 0, 0, 0, 1, 0x65, 0x88, 0x84, 0x00, 0x33] ''avc1.42E01E'' \<and>
   startCode [0, 0, 1, 0x41, 0x9a, 0x24, 0x6c, 0x41] 0 \<and>
   h264Type (rd [0, 0, 1, 0x41, 0x9a, 0x24, 0x6c, 0x41]
     (nalStart [0, 0, 1, 0x41, 0x9a, 0x24, 0x6c, 0x41] 0)) = 1 \<and>
   \<not> isKeyFrame [0, 0, 1, 0x41, 0x9a, 0x24, 0x6c, 0x41] ''avc1.42E01E''"
proof -
  let ?a = "[9, 0, 0, 0, 1, 0x65, 0x88, 0x84, 0x00, 0x33 :: u8]"
  let ?b = "[0, 0, 1, 0x41, 0x9a, 0x24, 0x6c, 0x41 :: u8]"
  have a1: "startCode ?a 1" and a0: "\<not> startCode ?a 0"
    by (simp_all add: startCode_def rd_def)
  from a0 have a2: "\<forall>j<1. \<not> startCode ?a j" by simp
  have a3: "h264Type (rd ?a (nalStart ?a 1)) = 5"
    by (simp add: h264Type_def rd_def nalStart_def)
  have a4: "int 1 < int (length ?a) - 6" by simp
  have f: "isH264Family ''avc1.42E01E''"
    by (simp add: isH264Family_def startsWith_def)
  have b1: "startCode ?b 0" by (simp add: startCode_def rd_def)
  have b2: "\<forall>j<0. \<not> startCode ?b j" by simp
  have b3: "h264Type (rd ?b (nalStart ?b 0)) = 1"
    by (simp add: h264Type_def rd_def nalStart_def)
  from h264_idr_first_nal [OF a1 a2, of "''avc1.42E01E''"]
    h264_idr_first_nal [OF b1 b2, of "''avc1.42E01E''"] a1 a0 a3 a4 f b1 b3
  show ?thesis by simp
qed

text \<open>
  Claim C9, as stated: whenever the header byte after the first start code passes both
  tests, \<^verbatim>\<open>detectCodec\<close> returns \<^verbatim>\<open>'h264'\<close>.  In 00 00 01 27 01 D0 the byte 0x27 (H.264
  type 7, H.265 type 19) follows a start code at index 0, which the loop does not reach
  (\<^verbatim>\<open>0 < data.length - 6\<close> is false): the result is \<^verbatim>\<open>'unknown'\<close>.
\<close>

theorem detectCodec_h264_precedence_tail_counterexample:
  "startCode [0, 0, 1, 0x27, 0x01, 0xd0] 0 \<and>
   rd [0, 0, 1, 0x27, 0x01, 0xd0] (nalStart [0, 0, 1, 0x27, 0x01, 0xd0] 0) = Some 0x27 \<and>
   h264Type (Some 0x27) = 7 \<and> h265Type (Some 0x27) = 19 \<and>
   detectCodec [0, 0, 1, 0x27, 0x01, 0xd0] = Unknown \<and>
   detectCodec [0, 0, 1, 0x27, 0x01, 0xd0] \<noteq> H264"
  by code_simp

text \<open>
  Claim C9, amended.  At every start code at an index \<open>p\<close> below \<^verbatim>\<open>data.length - 6\<close> the
  loop of \<^verbatim>\<open>detectCodec\<close> tests the H.264 reading of the header byte before the H.265
  reading: from \<open>p\<close> it returns \<^verbatim>\<open>'h264'\<close> if the low five bits are 5, 7 or 8, otherwise
  \<^verbatim>\<open>'h265'\<close> if bits 1 to 6 are 32, 33, 34, 19 or 20, and otherwise goes on with the next
  index.  Therefore, if the header byte at \<open>p\<close> passes the H.264 test (so in particular
  if it passes both tests, as the byte 0x27 does) and no start code at a lower index
  passes either test, \<^verbatim>\<open>detectCodec\<close> returns \<^verbatim>\<open>'h264'\<close> and not \<^verbatim>\<open>'h265'\<close>.
\<close>

theorem detectCodec_h264_precedence:
  assumes "int p < int (length data) - 6" and "startCode data p"
  shows
    "fst (detectCodec_scan data p) =
       (if h264Type (rd data (nalStart data p)) \<in> set [5, 7, 8] then H264
        else if h265Type (rd data (nalStart data p)) \<in> set [32, 33, 34, 19, 20] then H265
        else fst (detectCodec_scan data (p + 1))) \<and>
     (h264Type (rd data (nalStart data p)) \<in> set [5, 7, 8] \<and>
      (\<forall>j<p. \<not> (startCode data j \<and>
         (h264Type (rd data (nalStart data j)) \<in> set [5, 7, 8] \<or>
          h265Type (rd data (nalStart data j)) \<in> set [32, 33, 34, 19, 20]))) \<longrightarrow>
        detectCodec data = H264 \<and> detectCodec data \<noteq> H265)"
proof -
  have a: "fst (detectCodec_scan data p) =
       (if h264Type (rd data (nalStart data p)) \<in> set [5, 7, 8] then H264
        else if h265Type (rd data (nalStart data p)) \<in> set [32, 33, 34, 19, 20] then H265
        else fst (detectCodec_scan data (p + 1)))"
    using assms by (simp add: detectCodec_scan.simps [of data p])
  have b: "detectCodec data = H264 \<and> detectCodec data \<noteq> H265"
    if t: "h264Type (rd data (nalStart data p)) \<in> set [5, 7, 8]"
      and n: "\<forall>j<p. \<not> (startCode data j \<and>
         (h264Type (rd data (nalStart data j)) \<in> set [5, 7, 8] \<or>
          h265Type (rd data (nalStart data j)) \<in> set [32, 33, 34, 19, 20]))"
  proof -
    have "fst (detectCodec_scan data 0) = fst (detectCodec_scan data p)"
      by (rule detectCodec_scan_skip) (use n in auto)
    also have "\<dots> = H264"
      using assms t by (rule detectCodec_scan_h264)
    finally show ?thesis by (simp add: detectCodec_def)
  qed
  from a b show ?thesis by blast
qed

theorem detectCodec_h264_precedence_witness:
  "startCode [0, 0, 1, 0x09, 0xf0, 0, 0, 1, 0x27, 0x01, 0xd0, 0x2c, 0x10] 0 \<and>
   h264Type (Some 0x09) = 9 \<and> h265Type (Some 0x09) = 4 \<and>
   startCode [0, 0, 1, 0x09, 0xf0, 0, 0, 1, 0x27, 0x01, 0xd0, 0x2c, 0x10] 5 \<and>
   rd [0, 0, 1, 0x09, 0xf0, 0, 0, 1, 0x27, 0x01, 0xd0, 0x2c, 0x10]
     (nalStart [0, 0, 1, 0x09, 0xf0, 0, 0, 1, 0x27, 0x01, 0xd0, 0x2c, 0x10] 5) = Some 0x27 \<and>
   h264Type (Some 0x27) = 7 \<and> h265Type (Some 0x27) = 19 \<and>
   fst (detectCodec_scan [0, 0, 1, 0x09, 0xf0, 0, 0, 1, 0x27, 0x01, 0xd0, 0x2c, 0x10] 5) = H264 \<and>
   detectCodec [0, 0, 1, 0x09, 0xf0, 0, 0, 1, 0x27, 0x01, 0xd0, 0x2c, 0x10] = H264 \<and>
   detectCodec [0, 0, 1, 0x09, 0xf0, 0, 0, 1, 0x27, 0x01, 0xd0, 0x2c, 0x10] \<noteq> H265"
proof -
  let ?d = "[0, 0, 1, 0x09, 0xf0, 0, 0, 1, 0x27, 0x01, 0xd0, 0x2c, 0x10 :: u8]"
  have a: "int 5 < int (length ?d) - 6" by simp
  have s0: "startCode ?d 0" and b: "startCode ?d 5"
    by (simp_all add: startCode_def rd_def)
  have r0: "rd ?d (nalStart ?d 0) = Some 0x09" and r5: "rd ?d (nalStart ?d 5) = Some 0x27"
    by (simp_all add: rd_def nalStart_def)
  have t: "h264Type (Some 0x09) = 9" "h265Type (Some 0x09) = 4"
    "h264Type (Some 0x27) = 7" "h265Type (Some 0x27) = 19"
    by (simp_all add: h264Type_def h265Type_def)
  have n0: "\<not> (h264Type (rd ?d (nalStart ?d 0)) \<in> set [5, 7, 8] \<or>
      h265Type (rd ?d (nalStart ?d 0)) \<in> set [32, 33, 34, 19, 20])"
    using r0 t by simp
  have ns: "\<not> startCode ?d 1" "\<not> startCode ?d 2" "\<not> startCode ?d 3" "\<not> startCode ?d 4"
    by (simp_all add: startCode_def rd_def)
  have n: "\<forall>j<5. \<not> (startCode ?d j \<and>
         (h264Type (rd ?d (nalStart ?d j)) \<in> set [5, 7, 8] \<or>
          h265Type (rd ?d (nalStart ?d j)) \<in> set [32, 33, 34, 19, 20]))"
  proof (intro allI impI)
    fix j :: nat
    assume "j < 5"
    then have "j = 0 \<or> j = 1 \<or> j = 2 \<or> j = 3 \<or> j = 4" by arith
    with n0 ns show "\<not> (startCode ?d j \<and>
         (h264Type (rd ?d (nalStart ?d j)) \<in> set [5, 7, 8] \<or>
          h265Type (rd ?d (nalStart ?d j)) \<in> set [32, 33, 34, 19, 20]))"
      by blast
  qed
  have h: "h264Type (rd ?d (nalStart ?d 5)) \<in> set [5, 7, 8]"
    using r5 t by simp
  from detectCodec_h264_precedence [OF a b] h n s0 b r5 t show ?thesis by simp
qed

text \<open>
  Claim C10, as stated, says of a codec of the H.265 family that \<^verbatim>\<open>isKeyFrame\<close> scans
  all NAL units of the buffer and returns true if any has a type from 16 to 20.  The
  loop stops at \<^verbatim>\<open>data.length - 6\<close>: a NAL unit of type 19 whose start code lies in the
  last six bytes is not seen, and the result is false.
\<close>

theorem isKeyFrame_h265_tail_counterexample:
  "isH265Family ''hvc1.1.6.L93.B0'' \<and>
   hasH265Nal [0, 0, 1, 0x26, 0x01, 0xaf] [16, 17, 18, 19, 20] \<and>
   \<not> isKeyFrame [0, 0, 1, 0x26, 0x01, 0xaf] ''hvc1.1.6.L93.B0''"
  by code_simp

text \<open>
  Claim C10, amended.  For a codec of the H.264 family \<^verbatim>\<open>isKeyFrame\<close> decides at the
  first start code: with that start code at index \<open>p\<close>, the result is true exactly when
  \<open>p\<close> is below \<^verbatim>\<open>data.length - 4\<close> and the header byte has type 5, whatever follows,
  and no byte beyond that header byte is read; so a buffer in which a non-IDR unit
  precedes an IDR unit gives false.  For a codec of the H.265 family the result is true
  exactly when some start code at an index below \<^verbatim>\<open>data.length - 6\<close> has a header byte
  of type 16 to 20.  For a codec of neither family the result is true and no byte of the
  buffer is read.
\<close>

theorem isKeyFrame_scan_asymmetry:
  "(isH264Family c \<and> startCode data p \<and> (\<forall>j<p. \<not> startCode data j) \<longrightarrow>
      (isKeyFrame data c \<longleftrightarrow>
         int p < int (length data) - 4 \<and> h264Type (rd data (nalStart data p)) = 5) \<and>
      (\<forall>k\<in>set (isKeyFrame_reads data c). k \<le> nalStart data p)) \<and>
   (isH265Family c \<longrightarrow>
      (isKeyFrame data c \<longleftrightarrow>
         (\<exists>p. int p < int (length data) - 6 \<and> startCode data p \<and>
              h265Type (rd data (nalStart data p)) \<in> set [16, 17, 18, 19, 20]))) \<and>
   (\<not> isH264Family c \<and> \<not> isH265Family c \<longrightarrow> isKeyFrame_run data c = (True, []))"
proof -
  have a: "(isKeyFrame data c \<longleftrightarrow>
         int p < int (length data) - 4 \<and> h264Type (rd data (nalStart data p)) = 5) \<and>
      (\<forall>k\<in>set (isKeyFrame_reads data c). k \<le> nalStart data p)"
    if f: "isH264Family c" and s: "startCode data p" and n: "\<forall>j<p. \<not> startCode data j"
  proof -
    have "fst (isKeyFrame_h264 data 0) = fst (isKeyFrame_h264 data p)"
      by (rule isKeyFrame_h264_skip) (use n in auto)
    with f isKeyFrame_h264_at [OF s]
    have v: "isKeyFrame data c \<longleftrightarrow>
         int p < int (length data) - 4 \<and> h264Type (rd data (nalStart data p)) = 5"
      by (simp add: isKeyFrame_def isKeyFrame_run_def)
    have "k \<le> nalStart data p" if "k \<in> set (snd (isKeyFrame_h264 data 0))" for k
    proof -
      have "k < p + 3 \<or> k \<in> set (snd (isKeyFrame_h264 data p))"
        by (rule isKeyFrame_h264_reads_skip [of 0]) (use n that in auto)
      then show ?thesis
        using isKeyFrame_h264_reads_at [OF s, of k] nalStart_ge [of p data] by auto
    qed
    with f have "\<forall>k\<in>set (isKeyFrame_reads data c). k \<le> nalStart data p"
      by (simp add: isKeyFrame_reads_def isKeyFrame_run_def)
    with v show ?thesis by simp
  qed
  have b: "isKeyFrame data c \<longleftrightarrow>
         (\<exists>p. int p < int (length data) - 6 \<and> startCode data p \<and>
              h265Type (rd data (nalStart data p)) \<in> set [16, 17, 18, 19, 20])"
    if "isH265Family c"
    using that h265_not_h264 [OF that] isKeyFrame_h265_iff [of data 0]
    by (simp add: isKeyFrame_def isKeyFrame_run_def)
  have c: "isKeyFrame_run data c = (True, [])" if "\<not> isH264Family c" "\<not> isH265Family c"
    using that by (simp add: isKeyFrame_run_def)
  from a b c show ?thesis by blast
qed

theorem isKeyFrame_scan_asymmetry_witness:
  "isH264Family ''avc1.42E01E'' \<and>
   startCode [0, 0, 0, 1, 0x41, 0x9a, 0, 0, 0, 1, 0x65, 0x88, 0x84, 0x00] 0 \<and>
   h264Type (Some 0x41) = 1 \<and> h264Type (Some 0x65) = 5 \<and>
   \<not> isKeyFrame [0, 0, 0, 1, 0x41, 0x9a, 0, 0, 0, 1, 0x65, 0x88, 0x84, 0x00] ''avc1.42E01E'' \<and>
   list_all (\<lambda>k. k \<le> 4)
     (isKeyFrame_reads [0, 0, 0, 1, 0x41, 0x9a, 0, 0, 0, 1, 0x65, 0x88, 0x84, 0x00]
        ''avc1.42E01E'') \<and>
   isH265Family ''hvc1.1.6.L93.B0'' \<and>
   startCode [0, 0, 0, 1, 0x02, 0x01, 0, 0, 0, 1, 0x26, 0x01, 0xaf, 0x08, 0x40, 0x21, 0x07] 6 \<and>
   h265Type (Some 0x02) = 1 \<and> h265Type (Some 0x26) = 19 \<and>
   isKeyFrame [0, 0, 0, 1, 0x02, 0x01, 0, 0, 0, 1, 0x26, 0x01, 0xaf, 0x08, 0x40, 0x21, 0x07]
     ''hvc1.1.6.L93.B0'' \<and>
   \<not> isH264Family ''vp09.00.10.08'' \<and> \<not> isH265Family ''vp09.00.10.08'' \<and>
   isKeyFrame_run [0, 0, 0, 1, 0x41, 0x9a, 0, 0] ''vp09.00.10.08'' = (True, [])"
proof -
  let ?a = "[0, 0, 0, 1, 0x41, 0x9a, 0, 0, 0, 1, 0x65, 0x88, 0x84, 0x00 :: u8]"
  let ?b = "[0, 0, 0, 1, 0x02, 0x01, 0, 0, 0, 1, 0x26, 0x01, 0xaf, 0x08, 0x40, 0x21, 0x07 :: u8]"
  have f4: "isH264Family ''avc1.42E01E''"
    by (simp add: isH264Family_def startsWith_def)
  have f5: "isH265Family ''hvc1.1.6.L93.B0''"
    by (simp add: isH265Family_def startsWith_def)
  have fn: "\<not> isH264Family ''vp09.00.10.08''" "\<not> isH265Family ''vp09.00.10.08''"
    by (simp_all add: isH264Family_def isH265Family_def startsWith_def)
  have a1: "startCode ?a 0" by (simp add: startCode_def rd_def)
  have a2: "\<forall>j<0. \<not> startCode ?a j" by simp
  have a3: "nalStart ?a 0 = 4" "rd ?a 4 = Some 0x41"
    by (simp_all add: nalStart_def rd_def)
  have t: "h264Type (Some 0x41) = 1" "h264Type (Some 0x65) = 5"
    "h265Type (Some 0x02) = 1" "h265Type (Some 0x26) = 19"
    by (simp_all add: h264Type_def h265Type_def)
  have b1: "startCode ?b 6" by (simp add: startCode_def rd_def)
  have b2: "nalStart ?b 6 = 10" "rd ?b 10 = Some 0x26"
    by (simp_all add: nalStart_def rd_def)
  have b3: "int 6 < int (length ?b) - 6" by simp
  have ex: "\<exists>p. int p < int (length ?b) - 6 \<and> startCode ?b p \<and>
              h265Type (rd ?b (nalStart ?b p)) \<in> set [16, 17, 18, 19, 20]"
    using b1 b2 b3 t by (intro exI [of _ 6]) simp
  from isKeyFrame_scan_asymmetry [of "''avc1.42E01E''" ?a 0]
    isKeyFrame_scan_asymmetry [of "''hvc1.1.6.L93.B0''" ?b]
    isKeyFrame_scan_asymmetry [of "''vp09.00.10.08''" "[0, 0, 0, 1, 0x41, 0x9a, 0, 0]"]
    f4 f5 fn a1 a2 a3 t b1 ex
  show ?thesis by (simp add: list_all_iff)
qed

section \<open>Properties of the message handler\<close>

lemma detectStep_fields [simp]:
  "decoderRef (detectStep env u st) = decoderRef st"
  "wsRef (detectStep env u st) = wsRef st"
  "errorState (detectStep env u st) = errorState st"
  by (simp_all add: detectStep_def Let_def)

lemma detectStep_effects:
  "effects (detectStep env u st) =
     effects st @ (if truthy (autoCodec env) then [] else [DetectCodec u])"
  by (simp add: detectStep_def Let_def)

lemma onmessage_dropped:
  assumes "decoderRef st = Some d" and "waitForKeyFrame d \<noteq> Some False"
    and "\<not> isKeyFrame u (useCodec env)"
  shows "onmessage env (ArrayBuffer u) st =
     (detectStep env u st)\<lparr>decoderRef := Some (d\<lparr>waitForKeyFrame := Some True\<rparr>)\<rparr>"
  using assms by (cases "waitForKeyFrame d") (auto simp: onmessage_def Let_def)

lemma onmessage_submitted:
  assumes "decoderRef st = Some d"
    and "waitForKeyFrame d = Some False \<or> isKeyFrame u (useCodec env)"
  shows "onmessage env (ArrayBuffer u) st =
     (let st2 = (detectStep env u st)\<lparr>decoderRef :=
         Some (d\<lparr>waitForKeyFrame := Some False,
                 submitted := submitted d @ [videoChunk env u]\<rparr>)\<rparr>
      in if decodeThrows env (submitted d) (videoChunk env u)
         then st2\<lparr>errorState := Some ''instant.deviceList.deviceDecodeFailed''\<rparr>
         else st2)"
proof (cases "waitForKeyFrame d")
  case None
  with assms show ?thesis by (auto simp: onmessage_def Let_def)
next
  case (Some w)
  with assms show ?thesis by (cases w) (auto simp: onmessage_def Let_def)
qed

lemma run_flag_clear:
  assumes "decoderRef st = Some d" and "waitForKeyFrame d = Some False"
  shows "\<exists>d'. decoderRef (run env (map ArrayBuffer us) st) = Some d' \<and>
           waitForKeyFrame d' = Some False \<and>
           submitted d' = submitted d @ map (videoChunk env) us"
  using assms
proof (induction us arbitrary: st d)
  case Nil
  then show ?case by simp
next
  case (Cons u us)
  let ?st = "onmessage env (ArrayBuffer u) st"
  let ?d = "d\<lparr>waitForKeyFrame := Some False, submitted := submitted d @ [videoChunk env u]\<rparr>"
  have "decoderRef ?st = Some ?d"
    using onmessage_submitted [of st d u env] Cons.prems by (simp add: Let_def)
  moreover have "waitForKeyFrame ?d = Some False" by simp
  ultimately obtain d' where "decoderRef (run env (map ArrayBuffer us) ?st) = Some d'"
    "waitForKeyFrame d' = Some False"
    "submitted d' = submitted ?d @ map (videoChunk env) us"
    using Cons.IH by blast
  then show ?case by simp
qed

lemma run_gate:
  assumes "decoderRef st = Some d" and "waitForKeyFrame d \<noteq> Some False"
  shows "\<exists>d'. decoderRef (run env (map ArrayBuffer us) st) = Some d' \<and>
           submitted d' = submitted d @
             map (videoChunk env) (dropWhile (\<lambda>u. \<not> isKeyFrame u (useCodec env)) us)"
  using assms
proof (induction us arbitrary: st d)
  case Nil
  then show ?case by simp
next
  case (Cons u us)
  let ?st = "onmessage env (ArrayBuffer u) st"
  show ?case
  proof (cases "isKeyFrame u (useCodec env)")
    case False
    let ?d = "d\<lparr>waitForKeyFrame := Some True\<rparr>"
    have "decoderRef ?st = Some ?d"
      using onmessage_dropped [of st d u env] Cons.prems False by simp
    moreover have "waitForKeyFrame ?d \<noteq> Some False" by simp
    ultimately obtain d' where "decoderRef (run env (map ArrayBuffer us) ?st) = Some d'"
      "submitted d' = submitted ?d @
         map (videoChunk env) (dropWhile (\<lambda>u. \<not> isKeyFrame u (useCodec env)) us)"
      using Cons.IH by blast
    with False show ?thesis by simp
  next
    case True
    let ?d = "d\<lparr>waitForKeyFrame := Some False, submitted := submitted d @ [videoChunk env u]\<rparr>"
    have "decoderRef ?st = Some ?d"
      using onmessage_submitted [of st d u env] Cons.prems True by (simp add: Let_def)
    moreover have "waitForKeyFrame ?d = Some False" by simp
    ultimately obtain d' where "decoderRef (run env (map ArrayBuffer us) ?st) = Some d'"
      "submitted d' = submitted ?d @ map (videoChunk env) us"
      using run_flag_clear by blast
    with True show ?thesis by simp
  qed
qed

lemma onmessage_keeps_decoder:
  "decoderRef st \<noteq> None \<Longrightarrow> decoderRef (onmessage env e st) \<noteq> None"
  by (cases e) (auto simp: onmessage_def Let_def)

lemma onmessage_effects:
  "decoderRef st \<noteq> None \<Longrightarrow>
   effects (onmessage env (ArrayBuffer u) st) =
     effects st @ (if truthy (autoCodec env) then [] else [DetectCodec u])"
  by (auto simp: onmessage_def Let_def detectStep_effects)

lemma detectCodec_on_every_unit:
  "\<not> truthy (autoCodec env) \<Longrightarrow> decoderRef st \<noteq> None \<Longrightarrow>
   effects (run env (map ArrayBuffer us) st) = effects st @ map DetectCodec us"
proof (induction us arbitrary: st)
  case Nil
  then show ?case by simp
next
  case (Cons u us)
  from Cons.prems have "decoderRef (onmessage env (ArrayBuffer u) st) \<noteq> None"
    by (intro onmessage_keeps_decoder)
  with Cons.IH [of "onmessage env (ArrayBuffer u) st"] Cons.prems
  show ?case by (simp add: onmessage_effects)
qed


section \<open>Properties of \<^verbatim>\<open>playStream\<close>\<close>

lemma playStream_toggle_off:
  "did x \<in> set cur \<Longrightarrow> playStream (Some x) cur = filter (\<lambda>id. id \<noteq> did x) cur"
  by (simp add: playStream_def setCurrentPlayingId_def)

lemma playStream_appends:
  "did x \<notin> set cur \<Longrightarrow> playStream (Some x) cur = cur @ [did x]"
  by (simp add: playStream_def setCurrentPlayingId_def Let_def)

section \<open>The claims about the player\<close>

text \<open>
  Claim C1 (decode gate).  The messages of a session are handled in arrival order by a
  handler whose decoder is \<open>d\<close>.  While the flag \<^verbatim>\<open>_waitForKeyFrame\<close> is true (or not
  yet set: the handler sets it to true first), a unit that \<^verbatim>\<open>isKeyFrame\<close> classifies as
  not key is discarded: nothing is submitted to \<^verbatim>\<open>decode\<close>, and the error state and the
  socket are as before.  A unit classified as key clears the flag and is submitted as a
  key chunk.  Once the flag is false every unit is submitted, key or delta.  So the
  chunks submitted for a sequence of units are those of the units from the first key
  unit on; for a sequence delta, delta, key, delta they are the last two.
\<close>

theorem decode_gate:
  assumes "decoderRef st = Some d"
  shows
    "(waitForKeyFrame d \<noteq> Some False \<and> \<not> isKeyFrame u (useCodec env) \<longrightarrow>
        decoderRef (onmessage env (ArrayBuffer u) st) = Some (d\<lparr>waitForKeyFrame := Some True\<rparr>) \<and>
        errorState (onmessage env (ArrayBuffer u) st) = errorState st \<and>
        wsRef (onmessage env (ArrayBuffer u) st) = wsRef st) \<and>
     (waitForKeyFrame d \<noteq> Some False \<and> isKeyFrame u (useCodec env) \<longrightarrow>
        decoderRef (onmessage env (ArrayBuffer u) st) =
          Some (d\<lparr>waitForKeyFrame := Some False,
                  submitted := submitted d @ [\<lparr>ctype = Key, cdata = u\<rparr>]\<rparr>)) \<and>
     (waitForKeyFrame d = Some False \<longrightarrow>
        decoderRef (onmessage env (ArrayBuffer u) st) =
          Some (d\<lparr>submitted := submitted d @ [videoChunk env u]\<rparr>)) \<and>
     (waitForKeyFrame d \<noteq> Some False \<longrightarrow>
        (\<exists>d'. decoderRef (run env (map ArrayBuffer us) st) = Some d' \<and>
           submitted d' = submitted d @
             map (videoChunk env) (dropWhile (\<lambda>u. \<not> isKeyFrame u (useCodec env)) us))) \<and>
     (waitForKeyFrame d \<noteq> Some False \<and>
      \<not> isKeyFrame ua (useCodec env) \<and> \<not> isKeyFrame ub (useCodec env) \<and>
      isKeyFrame uc (useCodec env) \<and> \<not> isKeyFrame ud (useCodec env) \<longrightarrow>
        (\<exists>d'. decoderRef (run env (map ArrayBuffer [ua, ub, uc, ud]) st) = Some d' \<and>
           submitted d' = submitted d @
             [\<lparr>ctype = Key, cdata = uc\<rparr>, \<lparr>ctype = Delta, cdata = ud\<rparr>]))"
proof -
  have a: "decoderRef (onmessage env (ArrayBuffer u) st) = Some (d\<lparr>waitForKeyFrame := Some True\<rparr>) \<and>
        errorState (onmessage env (ArrayBuffer u) st) = errorState st \<and>
        wsRef (onmessage env (ArrayBuffer u) st) = wsRef st"
    if "waitForKeyFrame d \<noteq> Some False" "\<not> isKeyFrame u (useCodec env)"
    using onmessage_dropped [OF assms that] by simp
  have b: "decoderRef (onmessage env (ArrayBuffer u) st) =
          Some (d\<lparr>waitForKeyFrame := Some False,
                  submitted := submitted d @ [\<lparr>ctype = Key, cdata = u\<rparr>]\<rparr>)"
    if "isKeyFrame u (useCodec env)"
    using onmessage_submitted [OF assms, of u env] that by (simp add: Let_def videoChunk_def)
  have c: "decoderRef (onmessage env (ArrayBuffer u) st) =
          Some (d\<lparr>submitted := submitted d @ [videoChunk env u]\<rparr>)"
    if "waitForKeyFrame d = Some False"
  proof -
    from that have "d\<lparr>waitForKeyFrame := Some False,
        submitted := submitted d @ [videoChunk env u]\<rparr> =
        d\<lparr>submitted := submitted d @ [videoChunk env u]\<rparr>"
      by simp
    with onmessage_submitted [OF assms, of u env] that show ?thesis
      by (simp add: Let_def)
  qed
  have d: "\<exists>d'. decoderRef (run env (map ArrayBuffer us) st) = Some d' \<and>
           submitted d' = submitted d @
             map (videoChunk env) (dropWhile (\<lambda>u. \<not> isKeyFrame u (useCodec env)) us)"
    if "waitForKeyFrame d \<noteq> Some False" for us
    using run_gate [OF assms that] .
  have e: "\<exists>d'. decoderRef (run env (map ArrayBuffer [ua, ub, uc, ud]) st) = Some d' \<and>
           submitted d' = submitted d @
             [\<lparr>ctype = Key, cdata = uc\<rparr>, \<lparr>ctype = Delta, cdata = ud\<rparr>]"
    if "waitForKeyFrame d \<noteq> Some False"
      "\<not> isKeyFrame ua (useCodec env)" "\<not> isKeyFrame ub (useCodec env)"
      "isKeyFrame uc (useCodec env)" "\<not> isKeyFrame ud (useCodec env)"
    using d [OF that(1), of "[ua, ub, uc, ud]"] that by (simp add: videoChunk_def)
  from a b c d e show ?thesis by blast
qed

theorem decode_gate_witness:
  "decoderRef freshPlayer = Some \<lparr>waitForKeyFrame = None, submitted = []\<rparr> \<and>
   useCodec defaultSession = ''avc1.42E01E'' \<and>
   \<not> isKeyFrame [0, 0, 0, 1, 0x41, 0x9a, 0x24, 0x6c] ''avc1.42E01E'' \<and>
   \<not> isKeyFrame [0, 0, 0, 1, 0x41, 0x9a, 0x42, 0x3c] ''avc1.42E01E'' \<and>
   isKeyFrame [0, 0, 0, 1, 0x65, 0x88, 0x84, 0x00] ''avc1.42E01E'' \<and>
   \<not> isKeyFrame [0, 0, 0, 1, 0x41, 0x9a, 0x66, 0x2a] ''avc1.42E01E'' \<and>
   map_option submitted
     (decoderRef (run defaultSession
        (map ArrayBuffer
           [[0, 0, 0, 1, 0x41, 0x9a, 0x24, 0x6c], [0, 0, 0, 1, 0x41, 0x9a, 0x42, 0x3c],
            [0, 0, 0, 1, 0x65, 0x88, 0x84, 0x00], [0, 0, 0, 1, 0x41, 0x9a, 0x66, 0x2a]])
        freshPlayer)) =
     Some [\<lparr>ctype = Key, cdata = [0, 0, 0, 1, 0x65, 0x88, 0x84, 0x00]\<rparr>,
           \<lparr>ctype = Delta, cdata = [0, 0, 0, 1, 0x41, 0x9a, 0x66, 0x2a]\<rparr>]"
proof -
  let ?d = "\<lparr>waitForKeyFrame = None, submitted = []\<rparr>"
  have h: "decoderRef freshPlayer = Some ?d" by (simp add: freshPlayer_def)
  have w: "waitForKeyFrame ?d \<noteq> Some False" by simp
  have c: "useCodec defaultSession = ''avc1.42E01E''"
    by (simp add: useCodec_def defaultSession_def orElse_def)
  have k: "\<not> isKeyFrame [0, 0, 0, 1, 0x41, 0x9a, 0x24, 0x6c] ''avc1.42E01E''"
    "\<not> isKeyFrame [0, 0, 0, 1, 0x41, 0x9a, 0x42, 0x3c] ''avc1.42E01E''"
    "isKeyFrame [0, 0, 0, 1, 0x65, 0x88, 0x84, 0x00] ''avc1.42E01E''"
    "\<not> isKeyFrame [0, 0, 0, 1, 0x41, 0x9a, 0x66, 0x2a] ''avc1.42E01E''"
    by code_simp+
  from decode_gate [OF h, where env = defaultSession
      and ua = "[0, 0, 0, 1, 0x41, 0x9a, 0x24, 0x6c]"
      and ub = "[0, 0, 0, 1, 0x41, 0x9a, 0x42, 0x3c]"
      and uc = "[0, 0, 0, 1, 0x65, 0x88, 0x84, 0x00]"
      and ud = "[0, 0, 0, 1, 0x41, 0x9a, 0x66, 0x2a]"] w c k
  have "\<exists>d'. decoderRef (run defaultSession
        (map ArrayBuffer
           [[0, 0, 0, 1, 0x41, 0x9a, 0x24, 0x6c], [0, 0, 0, 1, 0x41, 0x9a, 0x42, 0x3c],
            [0, 0, 0, 1, 0x65, 0x88, 0x84, 0x00], [0, 0, 0, 1, 0x41, 0x9a, 0x66, 0x2a]])
        freshPlayer) = Some d' \<and>
      submitted d' = submitted ?d @
        [\<lparr>ctype = Key, cdata = [0, 0, 0, 1, 0x65, 0x88, 0x84, 0x00]\<rparr>,
         \<lparr>ctype = Delta, cdata = [0, 0, 0, 1, 0x41, 0x9a, 0x66, 0x2a]\<rparr>]"
    by simp
  then have "map_option submitted
     (decoderRef (run defaultSession
        (map ArrayBuffer
           [[0, 0, 0, 1, 0x41, 0x9a, 0x24, 0x6c], [0, 0, 0, 1, 0x41, 0x9a, 0x42, 0x3c],
            [0, 0, 0, 1, 0x65, 0x88, 0x84, 0x00], [0, 0, 0, 1, 0x41, 0x9a, 0x66, 0x2a]])
        freshPlayer)) =
     Some [\<lparr>ctype = Key, cdata = [0, 0, 0, 1, 0x65, 0x88, 0x84, 0x00]\<rparr>,
           \<lparr>ctype = Delta, cdata = [0, 0, 0, 1, 0x41, 0x9a, 0x66, 0x2a]\<rparr>]"
    by auto
  with h c k show ?thesis by simp
qed

text \<open>
  Claim C8.  When \<^verbatim>\<open>decode\<close> throws for a unit that passed the gate, the handler
  catches the exception and sets the error state.  The socket ref is unchanged, the
  decoder ref still holds the decoder (with the chunk recorded), the handler has called
  neither \<^verbatim>\<open>close\<close> (the only effect it may add is the bookkeeping of
  \<^verbatim>\<open>detectCodec\<close>), and the units that follow are submitted as usual.
\<close>

theorem decode_error_recoverable:
  assumes "decoderRef st = Some d"
    and "waitForKeyFrame d = Some False \<or> isKeyFrame u (useCodec env)"
    and "decodeThrows env (submitted d) (videoChunk env u)"
  shows
    "errorState (onmessage env (ArrayBuffer u) st) =
       Some ''instant.deviceList.deviceDecodeFailed'' \<and>
     wsRef (onmessage env (ArrayBuffer u) st) = wsRef st \<and>
     decoderRef (onmessage env (ArrayBuffer u) st) =
       Some (d\<lparr>waitForKeyFrame := Some False,
               submitted := submitted d @ [videoChunk env u]\<rparr>) \<and>
     effects (onmessage env (ArrayBuffer u) st) =
       effects st @ (if truthy (autoCodec env) then [] else [DetectCodec u]) \<and>
     (\<exists>d'. decoderRef (run env (map ArrayBuffer us) (onmessage env (ArrayBuffer u) st)) =
             Some d' \<and>
           submitted d' = submitted d @ [videoChunk env u] @ map (videoChunk env) us)"
proof -
  let ?st = "onmessage env (ArrayBuffer u) st"
  let ?d = "d\<lparr>waitForKeyFrame := Some False, submitted := submitted d @ [videoChunk env u]\<rparr>"
  have eq: "?st = (detectStep env u st)\<lparr>decoderRef := Some ?d,
      errorState := Some ''instant.deviceList.deviceDecodeFailed''\<rparr>"
    using onmessage_submitted [OF assms(1,2)] assms(3) by (simp add: Let_def)
  then have r: "decoderRef ?st = Some ?d" by simp
  have "waitForKeyFrame ?d = Some False" by simp
  with r obtain d' where "decoderRef (run env (map ArrayBuffer us) ?st) = Some d'"
    "submitted d' = submitted ?d @ map (videoChunk env) us"
    using run_flag_clear by blast
  then have "\<exists>d'. decoderRef (run env (map ArrayBuffer us) ?st) = Some d' \<and>
      submitted d' = submitted d @ [videoChunk env u] @ map (videoChunk env) us"
    by simp
  with eq show ?thesis by (simp add: detectStep_effects)
qed

theorem decode_error_recoverable_witness:
  "isKeyFrame [0, 0, 0, 1, 0x65, 0x88, 0x84, 0x00] (useCodec rejectingSession) \<and>
   decodeThrows rejectingSession []
     (videoChunk rejectingSession [0, 0, 0, 1, 0x65, 0x88, 0x84, 0x00]) \<and>
   errorState (onmessage rejectingSession (ArrayBuffer [0, 0, 0, 1, 0x65, 0x88, 0x84, 0x00])
     freshPlayer) = Some ''instant.deviceList.deviceDecodeFailed'' \<and>
   wsRef (onmessage rejectingSession (ArrayBuffer [0, 0, 0, 1, 0x65, 0x88, 0x84, 0x00])
     freshPlayer) = wsRef freshPlayer \<and>
   effects (onmessage rejectingSession (ArrayBuffer [0, 0, 0, 1, 0x65, 0x88, 0x84, 0x00])
     freshPlayer) = [DetectCodec [0, 0, 0, 1, 0x65, 0x88, 0x84, 0x00]] \<and>
   map_option submitted
     (decoderRef (run rejectingSession (map ArrayBuffer [[0, 0, 0, 1, 0x41, 0x9a, 0x24, 0x6c]])
        (onmessage rejectingSession (ArrayBuffer [0, 0, 0, 1, 0x65, 0x88, 0x84, 0x00])
           freshPlayer))) =
     Some [\<lparr>ctype = Key, cdata = [0, 0, 0, 1, 0x65, 0x88, 0x84, 0x00]\<rparr>,
           \<lparr>ctype = Delta, cdata = [0, 0, 0, 1, 0x41, 0x9a, 0x24, 0x6c]\<rparr>]"
proof -
  let ?d = "\<lparr>waitForKeyFrame = None, submitted = []\<rparr>"
  let ?k = "[0, 0, 0, 1, 0x65, 0x88, 0x84, 0x00 :: u8]"
  let ?e = "[0, 0, 0, 1, 0x41, 0x9a, 0x24, 0x6c :: u8]"
  have h: "decoderRef freshPlayer = Some ?d" by (simp add: freshPlayer_def)
  have c: "useCodec rejectingSession = ''avc1.42E01E''"
    by (simp add: useCodec_def rejectingSession_def defaultSession_def orElse_def)
  have k: "isKeyFrame ?k ''avc1.42E01E''" "\<not> isKeyFrame ?e ''avc1.42E01E''"
    by code_simp+
  with c have g: "waitForKeyFrame ?d = Some False \<or> isKeyFrame ?k (useCodec rejectingSession)"
    by simp
  have t: "decodeThrows rejectingSession (submitted ?d) (videoChunk rejectingSession ?k)"
    by (simp add: rejectingSession_def)
  have v: "videoChunk rejectingSession ?k = \<lparr>ctype = Key, cdata = ?k\<rparr>"
    "videoChunk rejectingSession ?e = \<lparr>ctype = Delta, cdata = ?e\<rparr>"
    using c k by (simp_all add: videoChunk_def)
  have a: "\<not> truthy (autoCodec rejectingSession)"
    by (simp add: truthy_def rejectingSession_def defaultSession_def)
  have e: "effects freshPlayer = []" by (simp add: freshPlayer_def)
  note res = decode_error_recoverable [OF h g t, where us = "[?e]"]
  from res have "\<exists>d'. decoderRef (run rejectingSession (map ArrayBuffer [?e])
        (onmessage rejectingSession (ArrayBuffer ?k) freshPlayer)) = Some d' \<and>
      submitted d' = [\<lparr>ctype = Key, cdata = ?k\<rparr>, \<lparr>ctype = Delta, cdata = ?e\<rparr>]"
    using v by simp
  then have "map_option submitted
     (decoderRef (run rejectingSession (map ArrayBuffer [?e])
        (onmessage rejectingSession (ArrayBuffer ?k) freshPlayer))) =
     Some [\<lparr>ctype = Key, cdata = ?k\<rparr>, \<lparr>ctype = Delta, cdata = ?e\<rparr>]"
    by auto
  with res g t a e c k show ?thesis by simp
qed

text \<open>
  Claim C7.  The close handler calls \<^verbatim>\<open>onPlay\<close> (when the prop was given) exactly when
  the reason of the close event, \<^verbatim>\<open>''\<close> if absent, is not \<^verbatim>\<open>'close_by_user'\<close>.  The
  cleanup of a session that has a socket closes it with code 1000 and the reason
  \<^verbatim>\<open>'close_by_user'\<close>, nulls the ref, and beyond closing the decoder does nothing else; a
  close event with that reason calls no \<^verbatim>\<open>onPlay\<close>.  A close event with any other reason, or none,
  does.  That the close event of a socket closed with a reason reports this reason is
  the platform's part.
\<close>

theorem close_reason_propagation:
  "effects (onclose env ev st) =
     effects st @
       (if onPlay env \<and> (case reason ev of None \<Rightarrow> [] | Some s \<Rightarrow> s) \<noteq> ''close_by_user''
        then [OnPlay] else []) \<and>
   (wsRef st = Some ws \<longrightarrow>
      wsRef (cleanup st) = None \<and>
      effects (cleanup st) =
        effects st @ WsClose (Some (1000, ''close_by_user'')) #
          (if decoderRef st = None then [] else [DecoderClose])) \<and>
   effects (onclose env \<lparr>reason = Some ''close_by_user''\<rparr> st) = effects st \<and>
   (onPlay env \<and> reason ev \<noteq> Some ''close_by_user'' \<longrightarrow>
      effects (onclose env ev st) = effects st @ [OnPlay])"
proof -
  have a: "effects (onclose env ev st) =
     effects st @
       (if onPlay env \<and> (case reason ev of None \<Rightarrow> [] | Some s \<Rightarrow> s) \<noteq> ''close_by_user''
        then [OnPlay] else [])" for ev
    by (simp add: onclose_def Let_def)
  have b: "wsRef (cleanup st) = None \<and>
      effects (cleanup st) =
        effects st @ WsClose (Some (1000, ''close_by_user'')) #
          (if decoderRef st = None then [] else [DecoderClose])" if "wsRef st = Some ws"
    using that by (simp add: cleanup_def Let_def split: option.splits)
  have d: "effects (onclose env ev st) = effects st @ [OnPlay]"
    if "onPlay env" "reason ev \<noteq> Some ''close_by_user''"
    using that a [of ev] by (cases "reason ev") auto
  from a [of ev] a [of "\<lparr>reason = Some ''close_by_user''\<rparr>"] b d show ?thesis
    by simp
qed

theorem close_reason_propagation_witness:
  "wsRef freshPlayer \<noteq> None \<and>
   wsRef (cleanup freshPlayer) = None \<and>
   effects (cleanup freshPlayer) = [WsClose (Some (1000, ''close_by_user'')), DecoderClose] \<and>
   effects (onclose defaultSession \<lparr>reason = Some ''close_by_user''\<rparr> (cleanup freshPlayer)) =
     effects (cleanup freshPlayer) \<and>
   effects (onclose defaultSession \<lparr>reason = None\<rparr> freshPlayer) = [OnPlay] \<and>
   effects (onclose defaultSession \<lparr>reason = Some ''''\<rparr> freshPlayer) = [OnPlay]"
proof -
  have w: "wsRef freshPlayer =
      Some (WebSocket ''/api/miot/ws/video_stream?camera_id=1&channel=0'')"
    by (simp add: freshPlayer_def)
  have e: "effects freshPlayer = []" by (simp add: freshPlayer_def)
  have c: "effects (cleanup freshPlayer) =
      [WsClose (Some (1000, ''close_by_user'')), DecoderClose]"
    by (simp add: cleanup_def freshPlayer_def)
  have p: "onPlay defaultSession" by (simp add: defaultSession_def)
  have n: "reason \<lparr>reason = None\<rparr> \<noteq> Some ''close_by_user''"
    "reason \<lparr>reason = Some ''''\<rparr> \<noteq> Some ''close_by_user''"
    by simp_all
  from close_reason_propagation
         [of defaultSession "\<lparr>reason = None\<rparr>" freshPlayer
             "WebSocket ''/api/miot/ws/video_stream?camera_id=1&channel=0''"]
       close_reason_propagation
         [of defaultSession "\<lparr>reason = Some ''''\<rparr>" freshPlayer
             "WebSocket ''/api/miot/ws/video_stream?camera_id=1&channel=0''"]
       close_reason_propagation
         [of defaultSession "\<lparr>reason = None\<rparr>" "cleanup freshPlayer"
             "WebSocket ''/api/miot/ws/video_stream?camera_id=1&channel=0''"]
       w e c p n
  show ?thesis by simp
qed

text \<open>
  Claim C3 (sticky codec) against the code.  In the first session of a player with the
  default codec, the unit 00 00 00 01 40 01 0C 01 (an H.265 VPS) is classified
  \<^verbatim>\<open>'h265'\<close> and \<^verbatim>\<open>setAutoCodec('hvc1.1.6.L93.B0')\<close> is called.  The handler still
  reads the \<^verbatim>\<open>autoCodec\<close> it closed over, which is \<^verbatim>\<open>null\<close>: for the next unit
  00 00 00 01 20 01 AF 08, which \<^verbatim>\<open>detectCodec\<close> classifies \<^verbatim>\<open>'unknown'\<close>, it calls
  \<^verbatim>\<open>detectCodec\<close> again and classifies the frame with \<^verbatim>\<open>'avc1.42E01E'\<close>.  Under the
  detected profile that unit (H.265 type 16) is a key frame; under the profile used it
  is not, and it is dropped.
\<close>

theorem sticky_codec_stale_closure:
  "detectCodec [0, 0, 0, 1, 0x40, 0x01, 0x0c, 0x01] = H265 \<and>
   detectCodec [0, 0, 0, 1, 0x20, 0x01, 0xaf, 0x08] = Unknown \<and>
   autoCodecState
     (onmessage defaultSession (ArrayBuffer [0, 0, 0, 1, 0x40, 0x01, 0x0c, 0x01]) freshPlayer) =
     Some ''hvc1.1.6.L93.B0'' \<and>
   effects
     (run defaultSession
        [ArrayBuffer [0, 0, 0, 1, 0x40, 0x01, 0x0c, 0x01],
         ArrayBuffer [0, 0, 0, 1, 0x20, 0x01, 0xaf, 0x08]] freshPlayer) =
     [DetectCodec [0, 0, 0, 1, 0x40, 0x01, 0x0c, 0x01],
      DetectCodec [0, 0, 0, 1, 0x20, 0x01, 0xaf, 0x08]] \<and>
   useCodec defaultSession = ''avc1.42E01E'' \<and>
   isKeyFrame [0, 0, 0, 1, 0x20, 0x01, 0xaf, 0x08] ''hvc1.1.6.L93.B0'' \<and>
   \<not> isKeyFrame [0, 0, 0, 1, 0x20, 0x01, 0xaf, 0x08] (useCodec defaultSession) \<and>
   decoderRef
     (run defaultSession
        [ArrayBuffer [0, 0, 0, 1, 0x40, 0x01, 0x0c, 0x01],
         ArrayBuffer [0, 0, 0, 1, 0x20, 0x01, 0xaf, 0x08]] freshPlayer) =
     Some \<lparr>waitForKeyFrame = Some True, submitted = []\<rparr>"
proof -
  let ?v = "[0, 0, 0, 1, 0x40, 0x01, 0x0c, 0x01 :: u8]"
  let ?b = "[0, 0, 0, 1, 0x20, 0x01, 0xaf, 0x08 :: u8]"
  have d: "detectCodec ?v = H265" "detectCodec ?b = Unknown"
    by code_simp+
  have c: "useCodec defaultSession = ''avc1.42E01E''"
    by (simp add: useCodec_def defaultSession_def orElse_def)
  have k: "isKeyFrame ?b ''hvc1.1.6.L93.B0''" "\<not> isKeyFrame ?b ''avc1.42E01E''"
    "\<not> isKeyFrame ?v ''avc1.42E01E''"
    by code_simp+
  have a: "\<not> truthy (autoCodec defaultSession)"
    by (simp add: truthy_def defaultSession_def)
  have s: "autoCodecState (onmessage defaultSession (ArrayBuffer ?v) freshPlayer) =
      Some ''hvc1.1.6.L93.B0''"
    using d a c k by (simp add: onmessage_def detectStep_def freshPlayer_def Let_def)
  have r: "decoderRef (run defaultSession [ArrayBuffer ?v, ArrayBuffer ?b] freshPlayer) =
      Some \<lparr>waitForKeyFrame = Some True, submitted = []\<rparr>"
    using d a c k by (simp add: onmessage_def detectStep_def freshPlayer_def Let_def)
  have e: "effects (run defaultSession [ArrayBuffer ?v, ArrayBuffer ?b] freshPlayer) =
      [DetectCodec ?v, DetectCodec ?b]"
    using d a c k by (simp add: onmessage_def detectStep_def freshPlayer_def Let_def)
  from d c k s r e show ?thesis by simp
qed

text \<open>
  Claim C2 (pool) against the code.  For an item that is playing, \<^verbatim>\<open>playStream\<close>
  removes it; for one that is not, the list of the next render is the list of this
  render with the item appended, whatever its length: the call
  \<^verbatim>\<open>setCurrentPlayingId(currentPlayingId.slice(1))\<close> is overwritten by the call that
  follows it.  With four cameras playing, a fifth gives five.
\<close>

theorem playStream_fifth_camera:
  "playStream (Some \<lparr>did = ''cam5''\<rparr>) [''cam1'', ''cam2'', ''cam3'', ''cam4''] =
     [''cam1'', ''cam2'', ''cam3'', ''cam4'', ''cam5''] \<and>
   length (playStream (Some \<lparr>did = ''cam5''\<rparr>) [''cam1'', ''cam2'', ''cam3'', ''cam4'']) = 5 \<and>
   playStream (Some \<lparr>did = ''cam5''\<rparr>) [''cam1'', ''cam2'', ''cam3'', ''cam4''] \<noteq>
     [''cam2'', ''cam3'', ''cam4'', ''cam5'']"
  by (simp add: playStream_def setCurrentPlayingId_def Let_def)

end
